theory Spec2Isabelle
  imports Complex_Main "HOL-Library.AList" "HOL-Library.Multiset" "HOL-Library.Product_Lexorder"
begin

section \<open>Settlement engine (src/lib/utils/settlement.ts)\<close>

text \<open>
  Numbers of the source are modelled as exact reals: sums, the division by the roster
  length and the comparisons against the tolerance 0.01 are the mathematical ones.
  Names are ordinary dictionary keys (no name is a property that every object inherits).
\<close>

text \<open>The structural parameter type \<^verbatim>\<open>{ payerName: string; amount: number }\<close>.\<close>

record payment =
  payerName :: string
  amount :: real

text \<open>
  The interface \<^verbatim>\<open>Settlement\<close>; its fields \<^verbatim>\<open>from\<close>, \<^verbatim>\<open>to\<close> and
  \<^verbatim>\<open>amount\<close> are \<open>fromName\<close>, \<open>toName\<close> and \<open>amountToPay\<close> here.
\<close>

record settlement =
  fromName :: string
  toName :: string
  amountToPay :: real

text \<open>
  \<^verbatim>\<open>memberTotals\<close> is a dictionary whose keys keep their insertion order; an
  association list updated with \<open>AList.update\<close> (overwrite in place, else append).
\<close>

type_synonym totals = "(string \<times> real) list"

text \<open>\<^verbatim>\<open>members.forEach((m) => (memberTotals[m] = 0))\<close>\<close>

definition initTotals :: "string list \<Rightarrow> totals" where
  "initTotals members = foldl (\<lambda>mt m. AList.update m 0 mt) [] members"

text \<open>
  \<^verbatim>\<open>if (memberTotals[e.payerName] !== undefined) memberTotals[e.payerName] += e.amount\<close>
\<close>

definition addPayment :: "totals \<Rightarrow> 'a payment_scheme \<Rightarrow> totals" where
  "addPayment mt e =
     (case map_of mt (payerName e) of
        None \<Rightarrow> mt
      | Some t \<Rightarrow> AList.update (payerName e) (t + amount e) mt)"

definition memberTotals :: "string list \<Rightarrow> 'a payment_scheme list \<Rightarrow> totals" where
  "memberTotals members expenses = foldl addPayment (initTotals members) expenses"

text \<open>\<^verbatim>\<open>Object.values(memberTotals).reduce((a, b) => a + b, 0)\<close>\<close>

definition totalTripExpense :: "totals \<Rightarrow> real" where
  "totalTripExpense mt = foldl (\<lambda>a b. a + b) 0 (map snd mt)"

definition average :: "string list \<Rightarrow> 'a payment_scheme list \<Rightarrow> real" where
  "average members expenses =
     totalTripExpense (memberTotals members expenses) / real (length members)"

text \<open>
  \<^verbatim>\<open>memberTotals[name]\<close> read for a roster name; every roster name is a key
  (lemma \<open>lookupTotal_member\<close> below), so the default is never taken.
\<close>

definition lookupTotal :: "totals \<Rightarrow> string \<Rightarrow> real" where
  "lookupTotal mt name = (case map_of mt name of Some t \<Rightarrow> t | None \<Rightarrow> 0)"

text \<open>The objects \<^verbatim>\<open>{ name, balance }\<close>, one per roster entry, as pairs.\<close>

type_synonym entry = "string \<times> real"

definition balances :: "string list \<Rightarrow> 'a payment_scheme list \<Rightarrow> entry list" where
  "balances members expenses =
     map (\<lambda>name. (name, lookupTotal (memberTotals members expenses) name
                          - average members expenses)) members"

text \<open>
  The two sorts are stable; \<open>sort_key\<close> is a stable insertion sort, ascending in its key.
\<close>

definition debtorsOf :: "entry list \<Rightarrow> entry list" where
  "debtorsOf bs = sort_key snd (filter (\<lambda>b. snd b < - 0.01) bs)"

definition creditorsOf :: "entry list \<Rightarrow> entry list" where
  "creditorsOf bs = sort_key (\<lambda>b. - snd b) (filter (\<lambda>b. snd b > 0.01) bs)"

text \<open>
  The variables of the \<^verbatim>\<open>while\<close> loop. The objects of the two arrays are
  mutated in place, which is the list update in \<open>loopBody\<close>.
\<close>

record loopState =
  debtors :: "entry list"
  creditors :: "entry list"
  dIndex :: nat
  cIndex :: nat
  settlements :: "settlement list"

text \<open>\<^verbatim>\<open>dIndex < debtors.length && cIndex < creditors.length\<close>\<close>

definition loopCond :: "loopState \<Rightarrow> bool" where
  "loopCond s = (dIndex s < length (debtors s) \<and> cIndex s < length (creditors s))"

text \<open>One pass through the body of the loop (lines 50 to 67).\<close>

definition loopBody :: "loopState \<Rightarrow> loopState" where
  "loopBody s =
     (let debtor = debtors s ! dIndex s;
          creditor = creditors s ! cIndex s;
          pay = min \<bar>snd debtor\<bar> (snd creditor);
          settlements' =
            (if pay > 0.01
             then settlements s @
                    [\<lparr>fromName = fst debtor, toName = fst creditor, amountToPay = pay\<rparr>]
             else settlements s);
          debtor' = (fst debtor, snd debtor + pay);
          creditor' = (fst creditor, snd creditor - pay)
      in \<lparr>debtors = (debtors s)[dIndex s := debtor'],
          creditors = (creditors s)[cIndex s := creditor'],
          dIndex = (if \<bar>snd debtor'\<bar> < 0.01 then Suc (dIndex s) else dIndex s),
          cIndex = (if \<bar>snd creditor'\<bar> < 0.01 then Suc (cIndex s) else cIndex s),
          settlements = settlements'\<rparr>)"

text \<open>
  The loop itself is not structurally recursive, so it returns an option and not
  returning is the value \<open>None\<close>.
\<close>

partial_function (option) settleLoop :: "loopState \<Rightarrow> settlement list option" where
  "settleLoop s = (if loopCond s then settleLoop (loopBody s) else Some (settlements s))"

declare settleLoop.simps [code]

text \<open>The loop variables as lines 37 to 47 set them.\<close>

definition initState :: "string list \<Rightarrow> 'a payment_scheme list \<Rightarrow> loopState" where
  "initState members expenses =
     (let bs = balances members expenses
      in \<lparr>debtors = debtorsOf bs, creditors = creditorsOf bs,
          dIndex = 0, cIndex = 0, settlements = []\<rparr>)"

definition calculateSettlements ::
  "string list \<Rightarrow> 'a payment_scheme list \<Rightarrow> settlement list option" where
  "calculateSettlements members expenses =
     (if length members = 0 then Some []
      else settleLoop (initState members expenses))"

subsection \<open>Auxiliary notions for the properties of the engine\<close>

text \<open>
  The totals in the words of the specification: what a member paid is the sum of the
  amounts of the expenses whose payer is that member; the matched spend is the sum of
  the amounts of the expenses whose payer is in the roster.
\<close>

definition paidBy :: "string \<Rightarrow> 'a payment_scheme list \<Rightarrow> real" where
  "paidBy m expenses = sum_list (map amount (filter (\<lambda>e. payerName e = m) expenses))"

definition matchedSpend :: "string list \<Rightarrow> 'a payment_scheme list \<Rightarrow> real" where
  "matchedSpend members expenses =
     sum_list (map amount (filter (\<lambda>e. payerName e \<in> set members) expenses))"

text \<open>The amount the loop body transfers in a state (\<^verbatim>\<open>amountToPay\<close>).\<close>

definition payOf :: "loopState \<Rightarrow> real" where
  "payOf s = min \<bar>snd (debtors s ! dIndex s)\<bar> (snd (creditors s ! cIndex s))"

text \<open>
  The invariant of the loop: from the current indices on, debtors owe at least the
  tolerance and creditors are owed at least the tolerance.
\<close>

definition loopInv :: "loopState \<Rightarrow> bool" where
  "loopInv s =
     ((\<forall>i. dIndex s \<le> i \<and> i < length (debtors s) \<longrightarrow> snd (debtors s ! i) \<le> - 0.01) \<and>
      (\<forall>j. cIndex s \<le> j \<and> j < length (creditors s) \<longrightarrow> 0.01 \<le> snd (creditors s ! j)))"

text \<open>The number of entries the two indices have not passed yet.\<close>

definition remaining :: "loopState \<Rightarrow> nat" where
  "remaining s = (length (debtors s) - dIndex s) + (length (creditors s) - cIndex s)"

text \<open>The names of the two arrays never change, and transfers go from one to the other.\<close>

definition namesInv :: "string list \<Rightarrow> string list \<Rightarrow> loopState \<Rightarrow> bool" where
  "namesInv ds cs s =
     (map fst (debtors s) = ds \<and> map fst (creditors s) = cs \<and>
      list_all (\<lambda>x. fromName x \<in> set ds \<and> toName x \<in> set cs) (settlements s))"








section \<open>Local store (src/lib/db/db.ts)\<close>

subsection \<open>Object stores\<close>

text \<open>
  An object store created with \<^verbatim>\<open>keyPath: "id", autoIncrement: true\<close>: its rows
  in ascending key order, and the current number of its key generator. The
  \<^verbatim>\<open>id\<close> of a stored record is its key, so a row is the key with the other fields.
\<close>

record 'a objectStore =
  records :: "(nat \<times> 'a) list"
  keyGenerator :: nat

text \<open>A value of a type whose \<^verbatim>\<open>id\<close> is optional: the id, if any, and the other fields.\<close>

type_synonym 'a withId = "nat option \<times> 'a"

text \<open>
  The values the modelled operations reject with: a plain \<^verbatim>\<open>Error\<close> with its
  message, the exceptions of the platform by their names, and \<^verbatim>\<open>null\<close>.
\<close>

datatype error =
  Error string
  | ConstraintError
  | ReadOnlyError
  | TypeError
  | Null

text \<open>\<^verbatim>\<open>store.get(id)\<close>\<close>

definition storeGet :: "'a objectStore \<Rightarrow> nat \<Rightarrow> 'a option" where
  "storeGet st k = map_of (records st) k"

text \<open>\<^verbatim>\<open>store.getAll()\<close>: the records in key order, each with its id.\<close>

definition storeGetAll :: "'a objectStore \<Rightarrow> 'a withId list" where
  "storeGetAll st = map (\<lambda>r. (Some (fst r), snd r)) (records st)"

text \<open>
  \<^verbatim>\<open>store.add(rest)\<close> of a value without id: the key generator gives the key and
  moves on; the result of the request is the key.
\<close>

definition storeAdd :: "'a objectStore \<Rightarrow> 'a \<Rightarrow> nat \<times> 'a objectStore" where
  "storeAdd st v =
     (keyGenerator st,
      \<lparr>records = records st @ [(keyGenerator st, v)], keyGenerator = Suc (keyGenerator st)\<rparr>)"



text \<open>\<^verbatim>\<open>store.delete(id)\<close> and \<^verbatim>\<open>cursor.delete()\<close>\<close>

definition storeDelete :: "'a objectStore \<Rightarrow> nat \<Rightarrow> 'a objectStore" where
  "storeDelete st k = st\<lparr>records := filter (\<lambda>r. fst r \<noteq> k) (records st)\<rparr>"

text \<open>
  Several \<^verbatim>\<open>store.add\<close> requests placed one after the other; the keys they return
  and the store after the last.
\<close>

fun addAll :: "'a objectStore \<Rightarrow> 'a list \<Rightarrow> nat list \<times> 'a objectStore" where
  "addAll st [] = ([], st)"
| "addAll st (v # vs) =
     (let (k, st1) = storeAdd st v;
          (ks, st2) = addAll st1 vs
      in (k # ks, st2))"

text \<open>
  What the platform keeps true of such a store: keys ascend strictly, every key was
  given out by the key generator, which starts at 1, so it is positive and below the
  generator's current number.
\<close>

definition wfStore :: "'a objectStore \<Rightarrow> bool" where
  "wfStore st =
     (sorted_wrt (<) (map fst (records st)) \<and>
      list_all (\<lambda>r. 0 < fst r \<and> fst r < keyGenerator st) (records st))"

subsection \<open>The entities (src/lib/types)\<close>

record category =
  name :: string

text \<open>
  Dates are ISO strings as \<^verbatim>\<open>toISOString\<close> prints them; they are modelled as the
  instant they denote, in milliseconds since the epoch, whose order is the order of the
  strings.
\<close>

record reminder =
  title :: string
  date :: int
  isRecurring :: "bool option"
  repeatInterval :: "int option"
  lastTriggered :: "int option"

record appSettings =
  monthlyBudget :: real
  emergencyFundGoal :: "real option"
  emergencyFundCurrent :: "real option"
  userName :: "string option"

text \<open>
  Modelled from the spec: the declarations of \<^verbatim>\<open>Trip\<close> and \<^verbatim>\<open>TripExpense\<close>
  are missing from the source files; the fields are those of section 3 of the
  specification.
\<close>

datatype tripStatus = active | completed

record trip =
  name :: string
  members :: "string list"
  createdAt :: int
  status :: tripStatus

record tripExpense = payment +
  tripId :: nat
  description :: string
  date :: int

subsection \<open>The database\<close>

text \<open>
  The seven object stores and the number of \<^verbatim>\<open>dataChanged\<close> events dispatched on
  \<^verbatim>\<open>dbEvents\<close>. The settings store has no key generator and only ever holds the
  record of key 1. The fields of an \<^verbatim>\<open>Expense\<close> and of a
  \<^verbatim>\<open>SavingsTransaction\<close> are never read, so their types are parameters.
\<close>

record ('e, 's) database =
  store_expenses :: "'e objectStore"
  store_categories :: "category objectStore"
  store_reminders :: "reminder objectStore"
  store_settings :: "appSettings option"
  store_savings_transactions :: "'s objectStore"
  store_trips :: "trip objectStore"
  store_trip_expenses :: "tripExpense objectStore"
  dataChanged :: nat

definition defaultCategories :: "string list" where
  "defaultCategories =
     [''Groceries'', ''Dining'', ''Travel'', ''Utilities'', ''Shopping'', ''Food'',
      ''Medicine'', ''Other'']"

subsection \<open>Transactions and requests\<close>

text \<open>\<^verbatim>\<open>IDBTransactionMode\<close>, as far as the source uses it.\<close>

datatype mode = readonly | readwrite

text \<open>
  The object store handed to an operation belongs to a transaction and knows its mode:
  a request that writes throws \<^verbatim>\<open>ReadOnlyError\<close> when the mode is
  \<^verbatim>\<open>readonly\<close>. A request returns its result with the store after it, or the
  error it fails with. A store with a unique index refuses a second record that is the
  \<open>same\<close> under that index with \<^verbatim>\<open>ConstraintError\<close>; \<open>noIndex\<close> is for a store
  without one.
\<close>

type_synonym 'a handle = "mode \<times> 'a objectStore"


definition violates :: "('a \<Rightarrow> 'a \<Rightarrow> bool) \<Rightarrow> (nat \<times> 'a) list \<Rightarrow> nat option \<Rightarrow> 'a \<Rightarrow> bool" where
  "violates same rs k v = list_ex (\<lambda>r. Some (fst r) \<noteq> k \<and> same (snd r) v) rs"


definition reqGet :: "'a handle \<Rightarrow> nat \<Rightarrow> error + ('a withId option \<times> 'a objectStore)" where
  "reqGet h k = Inr (map_option (\<lambda>v. (Some k, v)) (storeGet (snd h) k), snd h)"

text \<open>\<^verbatim>\<open>store.index(...).getAll(value)\<close>: the records whose index key is the value.\<close>

definition reqIndexGetAll ::
  "'a handle \<Rightarrow> ('a \<Rightarrow> bool) \<Rightarrow> error + ('a withId list \<times> 'a objectStore)" where
  "reqIndexGetAll h hasKey = Inr (filter (\<lambda>r. hasKey (snd r)) (storeGetAll (snd h)), snd h)"

definition reqAdd ::
  "('a \<Rightarrow> 'a \<Rightarrow> bool) \<Rightarrow> 'a handle \<Rightarrow> 'a \<Rightarrow> error + (nat \<times> 'a objectStore)" where
  "reqAdd same h v =
     (if fst h = readonly then Inl ReadOnlyError
      else if violates same (records (snd h)) None v then Inl ConstraintError
      else Inr (storeAdd (snd h) v))"



text \<open>
  \<^verbatim>\<open>performDBOperation\<close> on one store and the event count. The operation throws or
  its request fails: the promise rejects, nothing is written and no event is dispatched
  (a throw returns before \<^verbatim>\<open>oncomplete\<close> is set; a failed request aborts the
  transaction). Otherwise the transaction completes, and \<^verbatim>\<open>oncomplete\<close>
  dispatches \<^verbatim>\<open>dataChanged\<close> if the mode is \<^verbatim>\<open>readwrite\<close>.
\<close>

definition performDBOperation ::
  "mode \<Rightarrow> ('a handle \<Rightarrow> error + ('r \<times> 'a objectStore)) \<Rightarrow> 'a objectStore \<Rightarrow> nat
   \<Rightarrow> (error + 'r) \<times> 'a objectStore \<times> nat" where
  "performDBOperation mode operation st events =
     (case operation (mode, st) of
        Inl e \<Rightarrow> (Inl e, st, events)
      | Inr (res, st') \<Rightarrow> (Inr res, st', if mode = readwrite then Suc events else events))"

text \<open>\<^verbatim>\<open>performDBOperation("trips", mode, operation)\<close> and its like on the database.\<close>

definition onTrips ::
  "mode \<Rightarrow> (trip handle \<Rightarrow> error + ('r \<times> trip objectStore)) \<Rightarrow> ('e, 's) database
   \<Rightarrow> (error + 'r) \<times> ('e, 's) database" where
  "onTrips mode operation db =
     (case performDBOperation mode operation (store_trips db) (dataChanged db) of
        (r, st, ev) \<Rightarrow> (r, db\<lparr>store_trips := st, dataChanged := ev\<rparr>))"

definition onTripExpenses ::
  "mode \<Rightarrow> (tripExpense handle \<Rightarrow> error + ('r \<times> tripExpense objectStore))
   \<Rightarrow> ('e, 's) database \<Rightarrow> (error + 'r) \<times> ('e, 's) database" where
  "onTripExpenses mode operation db =
     (case performDBOperation mode operation (store_trip_expenses db) (dataChanged db) of
        (r, st, ev) \<Rightarrow> (r, db\<lparr>store_trip_expenses := st, dataChanged := ev\<rparr>))"


text \<open>The unique index \<^verbatim>\<open>name\<close> of the categories store.\<close>

definition sameName :: "category \<Rightarrow> category \<Rightarrow> bool" where
  "sameName a b = (category.name a = category.name b)"




definition getTrip ::
  "('e, 's) database \<Rightarrow> nat \<Rightarrow> (error + trip withId option) \<times> ('e, 's) database" where
  "getTrip db k = onTrips readonly (\<lambda>store. reqGet store k) db"




definition getTripExpenses ::
  "('e, 's) database \<Rightarrow> nat \<Rightarrow> (error + tripExpense withId list) \<times> ('e, 's) database" where
  "getTripExpenses db k =
     onTripExpenses readonly (\<lambda>store. reqIndexGetAll store (\<lambda>e. tripId e = k)) db"


subsection \<open>Category deletion (lines 219 to 244)\<close>

text \<open>
  One \<^verbatim>\<open>readwrite\<close> transaction on the categories store, whose
  \<^verbatim>\<open>oncomplete\<close> dispatches the event. For a default category the promise is
  rejected and no delete request is placed; the transaction still completes.
\<close>

definition deleteCategory ::
  "('e, 's) database \<Rightarrow> nat \<Rightarrow> (error + unit) \<times> ('e, 's) database" where
  "deleteCategory db k =
     (let categoryToDelete = storeGet (store_categories db) k
      in if (case categoryToDelete of
               None \<Rightarrow> False
             | Some c \<Rightarrow> category.name c \<in> set defaultCategories)
         then (Inl (Error ''Cannot delete a default category.''),
               db\<lparr>dataChanged := Suc (dataChanged db)\<rparr>)
         else (Inr (),
               db\<lparr>store_categories := storeDelete (store_categories db) k,
                  dataChanged := Suc (dataChanged db)\<rparr>))"

subsection \<open>The reminder sweep (lines 256 to 312)\<close>











subsection \<open>Whole-database import (lines 420 to 531)\<close>



text \<open>
  Categories (lines 459 to 477): every \<^verbatim>\<open>index.get(c.name)\<close> is placed before any
  \<^verbatim>\<open>add\<close>, so each sees the store as it was; then \<^verbatim>\<open>add({ name })\<close> for each
  name that was not found, in order. An \<^verbatim>\<open>add\<close> that fails aborts the transaction.
\<close>

fun addCategories :: "category objectStore \<Rightarrow> string list \<Rightarrow> error + category objectStore" where
  "addCategories st [] = Inr st"
| "addCategories st (n # ns) =
     (case reqAdd sameName (readwrite, st) \<lparr>category.name = n\<rparr> of
        Inl e \<Rightarrow> Inl e
      | Inr (k, st') \<Rightarrow> addCategories st' ns)"






subsection \<open>Export and import of one trip (lines 533 to 572)\<close>

record tripFile =
  file_trip :: "trip withId option"
  file_expenses :: "tripExpense withId list"
  file_version :: string
  file_exportedAt :: int

text \<open>\<^verbatim>\<open>exportTrip\<close>; \<open>now\<close> is \<^verbatim>\<open>new Date()\<close>. A rejected read rejects the export.\<close>

definition exportTrip ::
  "('e, 's) database \<Rightarrow> nat \<Rightarrow> int \<Rightarrow> (error + tripFile) \<times> ('e, 's) database" where
  "exportTrip db k now =
     (case getTrip db k of
        (Inl e, db1) \<Rightarrow> (Inl e, db1)
      | (Inr t, db1) \<Rightarrow>
          (case getTripExpenses db1 k of
             (Inl e, db2) \<Rightarrow> (Inl e, db2)
           | (Inr exps, db2) \<Rightarrow>
               (Inr \<lparr>file_trip = t, file_expenses = exps, file_version = ''1.0'',
                     file_exportedAt = now\<rparr>, db2)))"

text \<open>
  \<^verbatim>\<open>importTrip\<close>: destructuring a trip that is \<^verbatim>\<open>undefined\<close> throws a
  \<^verbatim>\<open>TypeError\<close>, which rejects the promise; the transaction, with no request
  placed and \<^verbatim>\<open>oncomplete\<close> already set, completes and dispatches the event.
  Otherwise the trip is added without its id and, with the key returned, each expense is
  added without its id and with \<^verbatim>\<open>tripId\<close> set to that key; the event is dispatched
  when the transaction completes.
\<close>

definition importTrip ::
  "('e, 's) database \<Rightarrow> tripFile \<Rightarrow> (error + unit) \<times> ('e, 's) database" where
  "importTrip db data =
     (case file_trip data of
        None \<Rightarrow> (Inl TypeError, db\<lparr>dataChanged := Suc (dataChanged db)\<rparr>)
      | Some t \<Rightarrow>
          (let (newId, tripStore) = storeAdd (store_trips db) (snd t);
               expenseStore =
                 snd (addAll (store_trip_expenses db)
                        (map (\<lambda>ex. (snd ex)\<lparr>tripId := newId\<rparr>) (file_expenses data)))
           in (Inr (),
               db\<lparr>store_trips := tripStore, store_trip_expenses := expenseStore,
                  dataChanged := Suc (dataChanged db)\<rparr>)))"

text \<open>A small database on which the operations are evaluated.\<close>

definition exampleDb :: "(unit, unit) database" where
  "exampleDb = \<lparr>store_expenses = \<lparr>records = [], keyGenerator = 1\<rparr>,
          store_categories = \<lparr>records = [(6, \<lparr>category.name = ''Food''\<rparr>), (9, \<lparr>category.name = ''Pets''\<rparr>)],
                              keyGenerator = 10\<rparr>,
          store_reminders = \<lparr>records = [], keyGenerator = 1\<rparr>,
          store_settings = Some \<lparr>monthlyBudget = 1000, emergencyFundGoal = Some 50000,
                                 emergencyFundCurrent = Some 0, userName = Some ''Friend''\<rparr>,
          store_savings_transactions = \<lparr>records = [], keyGenerator = 1\<rparr>,
          store_trips = \<lparr>records = [(1, \<lparr>trip.name = ''Goa'', members = [''Alice'', ''Bob''],
                                          createdAt = 0, status = active\<rparr>)],
                         keyGenerator = 2\<rparr>,
          store_trip_expenses =
            \<lparr>records = [(1, \<lparr>payerName = ''Alice'', amount = 300, tripId = 1,
                             description = ''hotel'', tripExpense.date = 10\<rparr>),
                        (2, \<lparr>payerName = ''Bob'', amount = 20, tripId = 7,
                             description = ''stray'', tripExpense.date = 11\<rparr>)],
             keyGenerator = 3\<rparr>,
          dataChanged = 0\<rparr>"





















section \<open>Properties of the settlement engine\<close>

lemma sum_list_zero_all: "\<forall>p \<in> set xs. snd p = (0::real) \<Longrightarrow> sum_list (map snd xs) = 0"
  by (induction xs) simp_all

lemma map_of_foldl_update:
  "map_of (foldl (\<lambda>mt m. AList.update m (0::real) mt) mt0 ms) k =
     (if k \<in> set ms then Some 0 else map_of mt0 k)"
  by (induction ms arbitrary: mt0) (auto simp: update_conv')

lemma map_of_initTotals:
  "map_of (initTotals roster) k = (if k \<in> set roster then Some 0 else None)"
  by (simp add: initTotals_def map_of_foldl_update)

lemma keys_initTotals: "fst ` set (initTotals roster) = set roster"
proof -
  have "dom (map_of (initTotals roster)) = set roster"
    by (auto simp: map_of_initTotals dom_def)
  then show ?thesis by (simp add: dom_map_of_conv_image_fst)
qed

lemma values_foldl_update:
  "\<forall>p \<in> set mt0. snd p = (0::real) \<Longrightarrow>
   \<forall>p \<in> set (foldl (\<lambda>mt m. AList.update m 0 mt) mt0 ms). snd p = 0"
proof (induction ms arbitrary: mt0)
  case Nil
  then show ?case by simp
next
  case (Cons m ms)
  have "\<forall>p \<in> set (AList.update m 0 mt0). snd p = 0"
    using Cons.prems by (induction mt0) auto
  then show ?case using Cons.IH by simp
qed

lemma sum_initTotals: "sum_list (map snd (initTotals roster)) = 0"
proof -
  have "\<forall>p \<in> set (initTotals roster). snd p = 0"
    unfolding initTotals_def by (rule values_foldl_update) simp
  then show ?thesis by (simp add: sum_list_zero_all)
qed

lemma map_of_addPayment:
  "map_of (addPayment mt e) k =
     (case map_of mt k of None \<Rightarrow> None
      | Some t \<Rightarrow> Some (if payerName e = k then t + amount e else t))"
  by (auto simp: addPayment_def update_conv' split: option.splits)

lemma map_of_foldl_addPayment:
  "map_of (foldl addPayment mt es) k =
     (case map_of mt k of None \<Rightarrow> None | Some t \<Rightarrow> Some (t + paidBy k es))"
proof (induction es arbitrary: mt)
  case Nil
  then show ?case by (simp add: paidBy_def split: option.splits)
next
  case (Cons e es)
  show ?case
    by (simp add: Cons.IH map_of_addPayment paidBy_def split: option.splits)
qed

lemma sum_list_update:
  "map_of mt k = Some t \<Longrightarrow>
   sum_list (map snd (AList.update k v mt)) = sum_list (map snd mt) - t + (v::real)"
  by (induction mt) (auto split: if_splits)

lemma keys_addPayment: "fst ` set (addPayment mt e) = fst ` set mt"
  by (auto simp: addPayment_def dom_update split: option.splits dest: map_of_SomeD
      intro: rev_image_eqI)

lemma sum_addPayment:
  "sum_list (map snd (addPayment mt e)) =
     sum_list (map snd mt) + (if payerName e \<in> fst ` set mt then amount e else 0)"
proof (cases "map_of mt (payerName e)")
  case None
  then have "payerName e \<notin> fst ` set mt" by (simp add: map_of_eq_None_iff)
  then show ?thesis using None by (simp add: addPayment_def)
next
  case (Some t)
  then have "payerName e \<in> fst ` set mt"
    by (meson domI domIff map_of_eq_None_iff)
  then show ?thesis using Some by (simp add: addPayment_def sum_list_update)
qed

lemma sum_foldl_addPayment:
  "sum_list (map snd (foldl addPayment mt es)) =
     sum_list (map snd mt) +
     sum_list (map amount (filter (\<lambda>e. payerName e \<in> fst ` set mt) es))"
  by (induction es arbitrary: mt) (simp_all add: sum_addPayment keys_addPayment)

lemma foldl_plus: "foldl (\<lambda>a b. a + b) a xs = a + sum_list (xs :: real list)"
  by (induction xs arbitrary: a) simp_all

lemma totalTripExpense_matched:
  "totalTripExpense (memberTotals roster expenses) = matchedSpend roster expenses"
  by (simp add: totalTripExpense_def memberTotals_def foldl_plus sum_foldl_addPayment
      sum_initTotals keys_initTotals matchedSpend_def)

lemma map_of_memberTotals:
  "map_of (memberTotals roster expenses) k =
     (if k \<in> set roster then Some (paidBy k expenses) else None)"
  by (simp add: memberTotals_def map_of_foldl_addPayment map_of_initTotals)

lemma lookupTotal_member:
  "m \<in> set roster \<Longrightarrow> lookupTotal (memberTotals roster expenses) m = paidBy m expenses"
  by (simp add: lookupTotal_def map_of_memberTotals)

lemma average_matched:
  "average roster expenses = matchedSpend roster expenses / real (length roster)"
  by (simp add: average_def totalTripExpense_matched)

lemma balances_paid:
  "balances roster expenses =
     map (\<lambda>m. (m, paidBy m expenses - matchedSpend roster expenses / real (length roster)))
       roster"
  by (simp add: balances_def lookupTotal_member average_matched)

lemma loopBody_debtors:
  "debtors (loopBody s) =
     (debtors s)[dIndex s := (fst (debtors s ! dIndex s), snd (debtors s ! dIndex s) + payOf s)]"
  by (simp add: loopBody_def payOf_def Let_def)

lemma loopBody_creditors:
  "creditors (loopBody s) =
     (creditors s)[cIndex s := (fst (creditors s ! cIndex s), snd (creditors s ! cIndex s) - payOf s)]"
  by (simp add: loopBody_def payOf_def Let_def)

lemma loopBody_dIndex:
  "dIndex (loopBody s) =
     (if \<bar>snd (debtors s ! dIndex s) + payOf s\<bar> < 0.01 then Suc (dIndex s) else dIndex s)"
  by (simp add: loopBody_def payOf_def Let_def)

lemma loopBody_cIndex:
  "cIndex (loopBody s) =
     (if \<bar>snd (creditors s ! cIndex s) - payOf s\<bar> < 0.01 then Suc (cIndex s) else cIndex s)"
  by (simp add: loopBody_def payOf_def Let_def)

lemma loopBody_settlements:
  "settlements (loopBody s) =
     (if payOf s > 0.01
      then settlements s @ [\<lparr>fromName = fst (debtors s ! dIndex s),
                              toName = fst (creditors s ! cIndex s), amountToPay = payOf s\<rparr>]
      else settlements s)"
  by (simp only: loopBody_def payOf_def Let_def loopState.simps)

lemmas loopBody_sel =
  loopBody_debtors loopBody_creditors loopBody_dIndex loopBody_cIndex loopBody_settlements

lemma head_bounds:
  assumes "loopInv s" "loopCond s"
  shows "snd (debtors s ! dIndex s) \<le> - 0.01" "0.01 \<le> snd (creditors s ! cIndex s)"
  using assms by (auto simp: loopInv_def loopCond_def)

lemma pay_cases:
  assumes "loopInv s" "loopCond s"
  shows "(payOf s = - snd (debtors s ! dIndex s) \<and> - snd (debtors s ! dIndex s) \<le> snd (creditors s ! cIndex s))
       \<or> (payOf s = snd (creditors s ! cIndex s) \<and> snd (creditors s ! cIndex s) < - snd (debtors s ! dIndex s))"
  using head_bounds[OF assms] by (auto simp: payOf_def min_def)

lemma loopInv_step:
  assumes "loopInv s" "loopCond s"
  shows "loopInv (loopBody s)"
proof -
  note hb = head_bounds[OF assms] and pc = pay_cases[OF assms]
  have d: "\<forall>i. dIndex (loopBody s) \<le> i \<and> i < length (debtors (loopBody s))
             \<longrightarrow> snd (debtors (loopBody s) ! i) \<le> - 0.01"
  proof (intro allI impI)
    fix i assume i: "dIndex (loopBody s) \<le> i \<and> i < length (debtors (loopBody s))"
    show "snd (debtors (loopBody s) ! i) \<le> - 0.01"
    proof (cases "i = dIndex s")
      case True
      then have "\<not> \<bar>snd (debtors s ! dIndex s) + payOf s\<bar> < 0.01"
        using i by (auto simp: loopBody_dIndex split: if_splits)
      then show ?thesis using True i hb pc by (auto simp: loopBody_debtors)
    next
      case False
      then have "dIndex s \<le> i" "i < length (debtors s)"
        using i by (auto simp: loopBody_dIndex loopBody_debtors split: if_splits)
      then show ?thesis using False assms(1) by (simp add: loopBody_debtors loopInv_def)
    qed
  qed
  have c: "\<forall>j. cIndex (loopBody s) \<le> j \<and> j < length (creditors (loopBody s))
             \<longrightarrow> 0.01 \<le> snd (creditors (loopBody s) ! j)"
  proof (intro allI impI)
    fix j assume j: "cIndex (loopBody s) \<le> j \<and> j < length (creditors (loopBody s))"
    show "0.01 \<le> snd (creditors (loopBody s) ! j)"
    proof (cases "j = cIndex s")
      case True
      then have "\<not> \<bar>snd (creditors s ! cIndex s) - payOf s\<bar> < 0.01"
        using j by (auto simp: loopBody_cIndex split: if_splits)
      then show ?thesis using True j hb pc by (auto simp: loopBody_creditors)
    next
      case False
      then have "cIndex s \<le> j" "j < length (creditors s)"
        using j by (auto simp: loopBody_cIndex loopBody_creditors split: if_splits)
      then show ?thesis using False assms(1) by (simp add: loopBody_creditors loopInv_def)
    qed
  qed
  show ?thesis unfolding loopInv_def using d c by blast
qed

lemma zero_step:
  assumes "loopInv s" "loopCond s"
  shows "snd (debtors (loopBody s) ! dIndex s) = 0 \<or> snd (creditors (loopBody s) ! cIndex s) = 0"
  using pay_cases[OF assms] assms(2) by (auto simp: loopBody_debtors loopBody_creditors loopCond_def)

lemma index_step:
  assumes "loopInv s" "loopCond s"
  shows "dIndex s + cIndex s < dIndex (loopBody s) + cIndex (loopBody s)"
  using pay_cases[OF assms] by (auto simp: loopBody_dIndex loopBody_cIndex)

lemma remaining_step:
  assumes "loopInv s" "loopCond s"
  shows "remaining (loopBody s) < remaining s"
  using index_step[OF assms] assms(2)
  by (auto simp: remaining_def loopCond_def loopBody_sel split: if_splits)

lemma loop_rule:
  assumes "loopInv s" "P s"
    and step: "\<And>t. loopInv t \<Longrightarrow> loopCond t \<Longrightarrow> P t \<Longrightarrow> P (loopBody t)"
  shows "\<exists>t. settleLoop s = Some (settlements t) \<and> \<not> loopCond t \<and> loopInv t \<and> P t"
  using assms(1,2)
proof (induction "remaining s" arbitrary: s rule: less_induct)
  case less
  show ?case
  proof (cases "loopCond s")
    case False
    then have "settleLoop s = Some (settlements s)" by (simp add: settleLoop.simps)
    then show ?thesis using False less.prems by blast
  next
    case True
    have "\<exists>t. settleLoop (loopBody s) = Some (settlements t) \<and> \<not> loopCond t \<and> loopInv t \<and> P t"
      using less.hyps[OF remaining_step[OF less.prems(1) True] loopInv_step[OF less.prems(1) True]
          step[OF less.prems(1) True less.prems(2)]] .
    moreover have "settleLoop s = settleLoop (loopBody s)"
      using True by (subst settleLoop.simps) simp
    ultimately show ?thesis by simp
  qed
qed

lemma loop_iterations:
  assumes "loopInv s"
  shows "\<exists>k \<le> remaining s. \<not> loopCond ((loopBody ^^ k) s) \<and> (\<forall>n<k. loopCond ((loopBody ^^ n) s))
          \<and> (\<forall>n\<le>k. loopInv ((loopBody ^^ n) s))
          \<and> settleLoop s = Some (settlements ((loopBody ^^ k) s))"
  using assms
proof (induction "remaining s" arbitrary: s rule: less_induct)
  case less
  show ?case
  proof (cases "loopCond s")
    case False
    then have "settleLoop s = Some (settlements s)" by (simp add: settleLoop.simps)
    then show ?thesis using False less.prems by (intro exI[of _ 0]) simp
  next
    case True
    note r = remaining_step[OF less.prems True]
    obtain k where k: "k \<le> remaining (loopBody s)" "\<not> loopCond ((loopBody ^^ k) (loopBody s))"
      "\<forall>n<k. loopCond ((loopBody ^^ n) (loopBody s))"
      "\<forall>n\<le>k. loopInv ((loopBody ^^ n) (loopBody s))"
      "settleLoop (loopBody s) = Some (settlements ((loopBody ^^ k) (loopBody s)))"
      using less.hyps[OF r loopInv_step[OF less.prems True]] by blast
    have eq: "settleLoop s = settleLoop (loopBody s)"
      using True by (subst settleLoop.simps) simp
    have a: "\<forall>n<Suc k. loopCond ((loopBody ^^ n) s)"
    proof (intro allI impI)
      fix n assume "n < Suc k"
      then show "loopCond ((loopBody ^^ n) s)"
        using True k(3) by (cases n) (simp_all add: funpow_swap1)
    qed
    have b: "\<forall>n\<le>Suc k. loopInv ((loopBody ^^ n) s)"
    proof (intro allI impI)
      fix n assume "n \<le> Suc k"
      then show "loopInv ((loopBody ^^ n) s)"
        using less.prems k(4) by (cases n) (simp_all add: funpow_swap1)
    qed
    show ?thesis
      using k(1,2,5) r a b eq by (intro exI[of _ "Suc k"]) (simp add: funpow_swap1)
  qed
qed

text \<open>The equations that evaluate the engine on a concrete roster.\<close>

lemmas settle_eval = calculateSettlements_def initState_def balances_def average_def
  memberTotals_def initTotals_def addPayment_def totalTripExpense_def lookupTotal_def
  debtorsOf_def creditorsOf_def settleLoop.simps loopCond_def loopBody_def Let_def

lemma debtorsOf_set: "set (debtorsOf bs) = {b \<in> set bs. snd b < - 0.01}"
  by (auto simp: debtorsOf_def)

lemma creditorsOf_set: "set (creditorsOf bs) = {b \<in> set bs. snd b > 0.01}"
  by (auto simp: creditorsOf_def)

lemma initState_sel:
  "debtors (initState roster expenses) = debtorsOf (balances roster expenses)"
  "creditors (initState roster expenses) = creditorsOf (balances roster expenses)"
  "dIndex (initState roster expenses) = 0"
  "cIndex (initState roster expenses) = 0"
  "settlements (initState roster expenses) = []"
  by (simp_all add: initState_def Let_def)

lemma loopInv_initState: "loopInv (initState roster expenses)"
proof -
  have "\<forall>i < length (debtorsOf bs). snd (debtorsOf bs ! i) \<le> - 0.01" for bs
  proof (intro allI impI)
    fix i assume "i < length (debtorsOf bs)"
    then have "debtorsOf bs ! i \<in> set (debtorsOf bs)" by simp
    then show "snd (debtorsOf bs ! i) \<le> - 0.01" by (simp add: debtorsOf_set)
  qed
  moreover have "\<forall>i < length (creditorsOf bs). 0.01 \<le> snd (creditorsOf bs ! i)" for bs
  proof (intro allI impI)
    fix i assume "i < length (creditorsOf bs)"
    then have "creditorsOf bs ! i \<in> set (creditorsOf bs)" by simp
    then show "0.01 \<le> snd (creditorsOf bs ! i)" by (simp add: creditorsOf_set)
  qed
  ultimately show ?thesis by (simp add: loopInv_def initState_sel)
qed

lemma remaining_initState:
  "remaining (initState roster expenses) =
     length (debtorsOf (balances roster expenses)) + length (creditorsOf (balances roster expenses))"
  by (simp add: remaining_def initState_sel)

lemma map_fst_update: "map fst (xs[i := (fst (xs ! i), v)]) = map fst xs"
  by (cases "i < length xs") (simp_all add: map_update list_update_same_conv list_update_beyond)

lemma namesInv_step:
  assumes "loopCond t" "namesInv ds cs t"
  shows "namesInv ds cs (loopBody t)"
proof -
  have "dIndex t < length (debtors t)" "cIndex t < length (creditors t)"
    using assms(1) by (simp_all add: loopCond_def)
  then have "fst (debtors t ! dIndex t) \<in> set (map fst (debtors t))"
    "fst (creditors t ! cIndex t) \<in> set (map fst (creditors t))"
    by simp_all
  then have d: "fst (debtors t ! dIndex t) \<in> set ds"
    and c: "fst (creditors t ! cIndex t) \<in> set cs"
    using assms(2) by (simp_all only: namesInv_def)
  show ?thesis
    using assms(2) d c by (simp add: namesInv_def loopBody_sel map_fst_update)
qed

lemma balances_functional:
  "(n, b1) \<in> set (balances roster expenses) \<Longrightarrow> (n, b2) \<in> set (balances roster expenses)
   \<Longrightarrow> b1 = b2"
  by (auto simp: balances_def)

lemma debtor_creditor_disjoint:
  "set (map fst (debtorsOf (balances roster expenses)))
   \<inter> set (map fst (creditorsOf (balances roster expenses))) = {}"
proof -
  { fix n assume "n \<in> fst ` set (debtorsOf (balances roster expenses))"
      "n \<in> fst ` set (creditorsOf (balances roster expenses))"
    then obtain b1 b2 where "(n, b1) \<in> set (balances roster expenses)" "b1 < - 0.01"
      "(n, b2) \<in> set (balances roster expenses)" "b2 > 0.01"
      by (auto simp: debtorsOf_set creditorsOf_set)
    then have False using balances_functional[of n b1 roster expenses b2] by simp }
  then show ?thesis by auto
qed

text \<open>
  Claim C7. For every roster and every expense list the engine returns, and no transfer
  of its output has its \<^verbatim>\<open>from\<close> field equal to its \<^verbatim>\<open>to\<close> field:
  a name is a debtor or a creditor, never both, since its balance depends on the name only.
\<close>

theorem no_self_transfer:
  "\<exists>r. calculateSettlements roster expenses = Some r \<and>
       list_all (\<lambda>x. fromName x \<noteq> toName x) r"
proof (cases "length roster = 0")
  case True
  then show ?thesis by (simp add: calculateSettlements_def)
next
  case False
  let ?s = "initState roster expenses"
  let ?ds = "map fst (debtors ?s)" and ?cs = "map fst (creditors ?s)"
  have "namesInv ?ds ?cs ?s" by (simp add: namesInv_def initState_sel)
  from loop_rule[where P = "namesInv ?ds ?cs", OF loopInv_initState this namesInv_step]
  obtain t where t: "settleLoop ?s = Some (settlements t)" "namesInv ?ds ?cs t" by blast
  have dj: "set ?ds \<inter> set ?cs = {}"
    using debtor_creditor_disjoint[of roster expenses] by (simp add: initState_sel)
  have "list_all (\<lambda>x. fromName x \<noteq> toName x) (settlements t)"
    unfolding list_all_iff
  proof
    fix x assume "x \<in> set (settlements t)"
    then have "fromName x \<in> set ?ds" "toName x \<in> set ?cs"
      using t(2) by (simp_all add: namesInv_def list_all_iff)
    then show "fromName x \<noteq> toName x" using dj by (metis IntI empty_iff)
  qed
  then show ?thesis using t(1) False by (simp add: calculateSettlements_def)
qed

lemma paidBy_single: "paidBy m expenses = matchedSpend [m] expenses"
  by (simp add: paidBy_def matchedSpend_def)

text \<open>
  Claim C8. The engine returns the empty list for the empty roster, for a roster of
  exactly one member whatever the expenses, and for the empty expense list whatever the
  roster.
\<close>

theorem trivial_inputs_settle_nothing:
  fixes expenses :: "'a payment_scheme list"
  shows "calculateSettlements [] expenses = Some [] \<and>
   calculateSettlements [m] expenses = Some [] \<and>
   calculateSettlements roster ([] :: 'a payment_scheme list) = Some []"
proof -
  let ?none = "[] :: 'a payment_scheme list"
  have a: "calculateSettlements [] expenses = Some []"
    by (simp add: calculateSettlements_def)
  have "balances [m] expenses = [(m, 0)]"
    by (simp add: balances_paid paidBy_single)
  then have "\<not> loopCond (initState [m] expenses)"
    by (simp add: loopCond_def initState_sel debtorsOf_def)
  then have b: "calculateSettlements [m] expenses = Some []"
    by (simp add: calculateSettlements_def settleLoop.simps initState_sel)
  have "balances roster ?none = map (\<lambda>m. (m, 0)) roster"
    by (simp add: balances_paid paidBy_def matchedSpend_def)
  then have "filter (\<lambda>b. snd b < - 0.01) (balances roster ?none) = []"
    by (simp add: filter_empty_conv)
  then have "debtorsOf (balances roster ?none) = []"
    by (simp add: debtorsOf_def)
  then have "\<not> loopCond (initState roster ?none)"
    by (simp add: loopCond_def initState_sel)
  then have c: "calculateSettlements roster ?none = Some []"
    by (simp add: calculateSettlements_def settleLoop.simps initState_sel)
  show ?thesis using a b c by simp
qed

text \<open>
  Claim C10. The engine is total: for every input the loop stops after at most
  (number of debtors + number of creditors) passes, and the engine returns the settlements
  of the state reached. In every pass the amount transferred, the minimum of the debtor's
  absolute balance and the creditor's balance, brings the balance of the current debtor
  or of the current creditor to exactly zero, and the sum of the two indices strictly
  increases.
\<close>

theorem settlement_loop_terminates:
  fixes roster :: "string list" and expenses :: "'a payment_scheme list"
  defines "s0 \<equiv> initState roster expenses"
  shows "(\<exists>r. calculateSettlements roster expenses = Some r) \<and>
         (\<exists>k. k \<le> length (debtors s0) + length (creditors s0) \<and>
              \<not> loopCond ((loopBody ^^ k) s0) \<and>
              settleLoop s0 = Some (settlements ((loopBody ^^ k) s0)) \<and>
              (\<forall>n<k. loopCond ((loopBody ^^ n) s0) \<and>
                 (snd (debtors ((loopBody ^^ Suc n) s0) ! dIndex ((loopBody ^^ n) s0)) = 0 \<or>
                  snd (creditors ((loopBody ^^ Suc n) s0) ! cIndex ((loopBody ^^ n) s0)) = 0) \<and>
                 dIndex ((loopBody ^^ n) s0) + cIndex ((loopBody ^^ n) s0)
                   < dIndex ((loopBody ^^ Suc n) s0) + cIndex ((loopBody ^^ Suc n) s0)))"
proof -
  obtain k where k: "k \<le> remaining s0" "\<not> loopCond ((loopBody ^^ k) s0)"
    "\<forall>n<k. loopCond ((loopBody ^^ n) s0)" "\<forall>n\<le>k. loopInv ((loopBody ^^ n) s0)"
    "settleLoop s0 = Some (settlements ((loopBody ^^ k) s0))"
    using loop_iterations[OF loopInv_initState[of roster expenses]] unfolding s0_def by blast
  have r: "remaining s0 = length (debtors s0) + length (creditors s0)"
    by (simp add: s0_def remaining_def initState_sel)
  have steps: "\<forall>n<k. loopCond ((loopBody ^^ n) s0) \<and>
                 (snd (debtors ((loopBody ^^ Suc n) s0) ! dIndex ((loopBody ^^ n) s0)) = 0 \<or>
                  snd (creditors ((loopBody ^^ Suc n) s0) ! cIndex ((loopBody ^^ n) s0)) = 0) \<and>
                 dIndex ((loopBody ^^ n) s0) + cIndex ((loopBody ^^ n) s0)
                   < dIndex ((loopBody ^^ Suc n) s0) + cIndex ((loopBody ^^ Suc n) s0)"
  proof (intro allI impI)
    fix n assume n: "n < k"
    define t where "t = (loopBody ^^ n) s0"
    have c: "loopCond t" and i: "loopInv t"
      using k(3,4) n by (simp_all add: t_def)
    have e: "(loopBody ^^ Suc n) s0 = loopBody t" by (simp add: t_def)
    show "loopCond ((loopBody ^^ n) s0) \<and>
                 (snd (debtors ((loopBody ^^ Suc n) s0) ! dIndex ((loopBody ^^ n) s0)) = 0 \<or>
                  snd (creditors ((loopBody ^^ Suc n) s0) ! cIndex ((loopBody ^^ n) s0)) = 0) \<and>
                 dIndex ((loopBody ^^ n) s0) + cIndex ((loopBody ^^ n) s0)
                   < dIndex ((loopBody ^^ Suc n) s0) + cIndex ((loopBody ^^ Suc n) s0)"
      unfolding e unfolding t_def[symmetric]
      using c zero_step[OF i c] index_step[OF i c] by blast
  qed
  have tot: "\<exists>r. calculateSettlements roster expenses = Some r"
    using k(5) by (simp add: calculateSettlements_def s0_def)
  have "k \<le> length (debtors s0) + length (creditors s0)" using k(1) r by simp
  then have "\<exists>k. k \<le> length (debtors s0) + length (creditors s0) \<and>
              \<not> loopCond ((loopBody ^^ k) s0) \<and>
              settleLoop s0 = Some (settlements ((loopBody ^^ k) s0)) \<and>
              (\<forall>n<k. loopCond ((loopBody ^^ n) s0) \<and>
                 (snd (debtors ((loopBody ^^ Suc n) s0) ! dIndex ((loopBody ^^ n) s0)) = 0 \<or>
                  snd (creditors ((loopBody ^^ Suc n) s0) ! cIndex ((loopBody ^^ n) s0)) = 0) \<and>
                 dIndex ((loopBody ^^ n) s0) + cIndex ((loopBody ^^ n) s0)
                   < dIndex ((loopBody ^^ Suc n) s0) + cIndex ((loopBody ^^ Suc n) s0))"
    using k(2,5) steps by (intro exI[of _ k]) (intro conjI)
  then show ?thesis using tot by (rule conjI[rotated])
qed

theorem settlement_loop_terminates_witness:
  "\<exists>k. 0 < k \<and> k \<le> 3 \<and>
     \<not> loopCond ((loopBody ^^ k)
           (initState [''Alice'', ''Bob'', ''Carol''] [\<lparr>payerName = ''Alice'', amount = 300\<rparr>])) \<and>
     (snd (debtors (loopBody
           (initState [''Alice'', ''Bob'', ''Carol''] [\<lparr>payerName = ''Alice'', amount = 300\<rparr>])) ! 0) = 0 \<or>
      snd (creditors (loopBody
           (initState [''Alice'', ''Bob'', ''Carol''] [\<lparr>payerName = ''Alice'', amount = 300\<rparr>])) ! 0) = 0)"
proof -
  let ?s = "initState [''Alice'', ''Bob'', ''Carol''] [\<lparr>payerName = ''Alice'', amount = 300\<rparr>]"
  have s: "?s = \<lparr>debtors = [(''Bob'', - 100), (''Carol'', - 100)], creditors = [(''Alice'', 200)],
                 dIndex = 0, cIndex = 0, settlements = []\<rparr>"
    by (simp add: settle_eval)
  have c0: "loopCond ?s" unfolding s by (simp add: loopCond_def)
  obtain k where k: "k \<le> length (debtors ?s) + length (creditors ?s)"
    "\<not> loopCond ((loopBody ^^ k) ?s)"
    "\<forall>n<k. loopCond ((loopBody ^^ n) ?s) \<and>
       (snd (debtors ((loopBody ^^ Suc n) ?s) ! dIndex ((loopBody ^^ n) ?s)) = 0 \<or>
        snd (creditors ((loopBody ^^ Suc n) ?s) ! cIndex ((loopBody ^^ n) ?s)) = 0) \<and>
       dIndex ((loopBody ^^ n) ?s) + cIndex ((loopBody ^^ n) ?s)
         < dIndex ((loopBody ^^ Suc n) ?s) + cIndex ((loopBody ^^ Suc n) ?s)"
    using settlement_loop_terminates[of "[''Alice'', ''Bob'', ''Carol'']"
        "[\<lparr>payerName = ''Alice'', amount = 300\<rparr>]"] by blast
  have pos: "0 < k" using k(2) c0 by (cases k) simp_all
  have le: "k \<le> 3" using k(1) unfolding s by simp
  have "snd (debtors ((loopBody ^^ Suc 0) ?s) ! dIndex ((loopBody ^^ 0) ?s)) = 0 \<or>
        snd (creditors ((loopBody ^^ Suc 0) ?s) ! cIndex ((loopBody ^^ 0) ?s)) = 0"
    using k(3) pos by blast
  then have z: "snd (debtors (loopBody ?s) ! 0) = 0 \<or> snd (creditors (loopBody ?s) ! 0) = 0"
    by (simp add: initState_sel)
  show ?thesis using pos le k(2) z by blast
qed



subsection \<open>The sum of the transfers\<close>




























section \<open>Properties of the local store\<close>

lemma addAll_eq:
  "addAll st vs =
     ([keyGenerator st ..< keyGenerator st + length vs],
      \<lparr>records = records st @ zip [keyGenerator st ..< keyGenerator st + length vs] vs,
       keyGenerator = keyGenerator st + length vs\<rparr>)"
proof (induction vs arbitrary: st)
  case Nil
  then show ?case by simp
next
  case (Cons v vs)
  have u: "[keyGenerator st ..< Suc (keyGenerator st + length vs)]
           = keyGenerator st # [Suc (keyGenerator st) ..< Suc (keyGenerator st + length vs)]"
    by (rule upt_conv_Cons) simp
  show ?case
    by (simp add: Cons.IH storeAdd_def u del: upt_Suc)
qed

lemma storeGet_append_fresh:
  assumes "wfStore st"
  shows "storeGet \<lparr>records = records st @ [(keyGenerator st, v)], keyGenerator = g\<rparr> k =
           (if k = keyGenerator st then Some v else storeGet st k)"
proof -
  have "keyGenerator st \<notin> fst ` set (records st)"
    using assms by (auto simp: wfStore_def list_all_iff)
  then have "map_of (records st) (keyGenerator st) = None"
    by (simp add: map_of_eq_None_iff)
  then show ?thesis
    by (auto simp: storeGet_def map_add_def split: option.splits)
qed

lemma wf_key_bounds:
  assumes "wfStore st" "storeGet st k = Some v"
  shows "0 < k" "k < keyGenerator st"
proof -
  have "(k, v) \<in> set (records st)" using assms(2) by (simp add: storeGet_def map_of_SomeD)
  then show "0 < k" "k < keyGenerator st"
    using assms(1) by (auto simp: wfStore_def list_all_iff)
qed

lemma getTrip_eq:
  "getTrip db k = (Inr (map_option (\<lambda>v. (Some k, v)) (storeGet (store_trips db) k)), db)"
  by (simp add: getTrip_def onTrips_def performDBOperation_def reqGet_def)

lemma getTripExpenses_eq:
  "getTripExpenses db k =
     (Inr (filter (\<lambda>r. tripId (snd r) = k) (storeGetAll (store_trip_expenses db))), db)"
  by (simp add: getTripExpenses_def onTripExpenses_def performDBOperation_def reqIndexGetAll_def)

lemma exportTrip_eq:
  "exportTrip db k now =
     (Inr \<lparr>file_trip = map_option (\<lambda>v. (Some k, v)) (storeGet (store_trips db) k),
           file_expenses = filter (\<lambda>r. tripId (snd r) = k) (storeGetAll (store_trip_expenses db)),
           file_version = ''1.0'', file_exportedAt = now\<rparr>, db)"
  by (simp add: exportTrip_def getTrip_eq getTripExpenses_eq)

text \<open>
  Claim C4 as stated fails: deleting the default category \<open>Food\<close> of \<open>exampleDb\<close> is
  rejected with a plain \<^verbatim>\<open>Error\<close> that carries a message only, not with the typed
  \<^verbatim>\<open>ConstraintError\<close> that the store raises for a violated constraint.
\<close>

theorem delete_default_category_counterexample:
  "fst (deleteCategory exampleDb 6) = Inl (Error ''Cannot delete a default category.'') \<and>
   fst (deleteCategory exampleDb 6) \<noteq> Inl ConstraintError"
  by (simp add: deleteCategory_def exampleDb_def storeGet_def defaultCategories_def)

text \<open>
  Claim C4, as amended. Deleting a category whose name is in the protected default set is
  rejected with the plain error \<^verbatim>\<open>Cannot delete a default category.\<close> before any
  delete request is placed: the category store, and every other store, is left as it was
  (the transaction still completes and dispatches its event).
\<close>

theorem delete_default_category_rejected:
  assumes "storeGet (store_categories db) k = Some c"
    and "category.name c \<in> set defaultCategories"
  shows "deleteCategory db k =
           (Inl (Error ''Cannot delete a default category.''),
            db\<lparr>dataChanged := Suc (dataChanged db)\<rparr>) \<and>
         store_categories (snd (deleteCategory db k)) = store_categories db"
  using assms by (simp add: deleteCategory_def)

theorem delete_default_category_rejected_witness:
  "storeGet (store_categories exampleDb) 6 = Some \<lparr>category.name = ''Food''\<rparr> \<and>
   ''Food'' \<in> set defaultCategories \<and>
   deleteCategory exampleDb 6 =
     (Inl (Error ''Cannot delete a default category.''), exampleDb\<lparr>dataChanged := 1\<rparr>) \<and>
   storeGetAll (store_categories (snd (deleteCategory exampleDb 6)))
     = [(Some 6, \<lparr>category.name = ''Food''\<rparr>), (Some 9, \<lparr>category.name = ''Pets''\<rparr>)]"
proof -
  have a: "storeGet (store_categories exampleDb) 6 = Some \<lparr>category.name = ''Food''\<rparr>"
    by (simp add: exampleDb_def storeGet_def)
  have b: "category.name \<lparr>category.name = ''Food''\<rparr> \<in> set defaultCategories"
    by (simp add: defaultCategories_def)
  show ?thesis
    using delete_default_category_rejected[OF a b] a b
    by (simp add: exampleDb_def storeGetAll_def)
qed

lemma importTrip_eq:
  "importTrip db \<lparr>file_trip = Some (i, t), file_expenses = exps, file_version = v,
                   file_exportedAt = n\<rparr> =
     (Inr (),
      db\<lparr>store_trips :=
           \<lparr>records = records (store_trips db) @ [(keyGenerator (store_trips db), t)],
            keyGenerator = Suc (keyGenerator (store_trips db))\<rparr>,
         store_trip_expenses :=
           \<lparr>records = records (store_trip_expenses db) @
               zip [keyGenerator (store_trip_expenses db) ..<
                      keyGenerator (store_trip_expenses db) + length exps]
                   (map (\<lambda>ex. (snd ex)\<lparr>tripId := keyGenerator (store_trips db)\<rparr>) exps),
            keyGenerator = keyGenerator (store_trip_expenses db) + length exps\<rparr>,
         dataChanged := Suc (dataChanged db)\<rparr>)"
  by (simp add: importTrip_def storeAdd_def addAll_eq)

text \<open>
  Claim C3. Exporting an existing trip of a well-formed store and importing the file as
  new adds one trip row whose key is the number the key generator gives, different from
  the exported trip's identifier, and whose fields (name, members, status, creation time)
  are those of the exported trip, which stays as it was; and it adds, after the existing
  expense rows, one row per exported expense, in order, with the same payer, amount,
  description and date, a fresh key (not below the generator's number, so the original
  identifier is not reused) and \<^verbatim>\<open>tripId\<close> equal to the new trip identifier.
\<close>

theorem export_import_round_trip:
  assumes wfT: "wfStore (store_trips db)"
    and wfE: "wfStore (store_trip_expenses db)"
    and t: "storeGet (store_trips db) k = Some t"
  shows "\<exists>file db'.
           exportTrip db k now = (Inr file, db) \<and>
           importTrip db file = (Inr (), db') \<and>
           (let newId = keyGenerator (store_trips db);
                exported = filter (\<lambda>r. tripId (snd r) = k) (records (store_trip_expenses db));
                h = keyGenerator (store_trip_expenses db)
            in file_trip file = Some (Some k, t) \<and>
               file_expenses file = map (\<lambda>r. (Some (fst r), snd r)) exported \<and>
               newId \<noteq> k \<and>
               records (store_trips db') = records (store_trips db) @ [(newId, t)] \<and>
               storeGet (store_trips db') newId = Some t \<and>
               storeGet (store_trips db') k = Some t \<and>
               records (store_trip_expenses db') =
                 records (store_trip_expenses db) @
                 zip [h ..< h + length exported]
                     (map (\<lambda>r. (snd r)\<lparr>tripId := newId\<rparr>) exported) \<and>
               list_all (\<lambda>r. fst r < h) (records (store_trip_expenses db)))"
proof -
  let ?newId = "keyGenerator (store_trips db)"
  let ?exported = "filter (\<lambda>r. tripId (snd r) = k) (records (store_trip_expenses db))"
  let ?h = "keyGenerator (store_trip_expenses db)"
  let ?file = "\<lparr>file_trip = Some (Some k, t),
                file_expenses = map (\<lambda>r. (Some (fst r), snd r)) ?exported,
                file_version = ''1.0'', file_exportedAt = now\<rparr>"
  let ?db' = "db\<lparr>store_trips := \<lparr>records = records (store_trips db) @ [(?newId, t)],
                                  keyGenerator = Suc ?newId\<rparr>,
                store_trip_expenses :=
                  \<lparr>records = records (store_trip_expenses db) @
                     zip [?h ..< ?h + length ?exported]
                         (map (\<lambda>r. (snd r)\<lparr>tripId := ?newId\<rparr>) ?exported),
                   keyGenerator = ?h + length ?exported\<rparr>,
                dataChanged := Suc (dataChanged db)\<rparr>"
  have ex: "exportTrip db k now = (Inr ?file, db)"
    by (simp add: exportTrip_eq t storeGetAll_def filter_map comp_def)
  have im: "importTrip db ?file = (Inr (), ?db')"
    by (simp add: importTrip_eq comp_def)
  have ne: "?newId \<noteq> k" using wf_key_bounds(2)[OF wfT t] by simp
  have g1: "storeGet (store_trips ?db') ?newId = Some t"
    using storeGet_append_fresh[OF wfT, of t "Suc ?newId" ?newId] by simp
  have g2: "storeGet (store_trips ?db') k = Some t"
    using storeGet_append_fresh[OF wfT, of t "Suc ?newId" k] ne t by simp
  have old: "list_all (\<lambda>r. fst r < ?h) (records (store_trip_expenses db))"
    using wfE by (simp add: wfStore_def list_all_iff)
  show ?thesis
    apply (rule exI[of _ ?file])
    apply (rule exI[of _ ?db'])
    using ex im ne g1 g2 old by (simp add: Let_def)
qed

theorem export_import_round_trip_witness:
  "wfStore (store_trips exampleDb) \<and> wfStore (store_trip_expenses exampleDb) \<and>
   storeGet (store_trips exampleDb) 1
     = Some \<lparr>trip.name = ''Goa'', members = [''Alice'', ''Bob''], createdAt = 0, status = active\<rparr> \<and>
   (\<exists>file db'. exportTrip exampleDb 1 5 = (Inr file, exampleDb) \<and> importTrip exampleDb file = (Inr (), db') \<and>
      storeGet (store_trips db') 2
        = Some \<lparr>trip.name = ''Goa'', members = [''Alice'', ''Bob''], createdAt = 0, status = active\<rparr> \<and>
      records (store_trip_expenses db') =
        [(1, \<lparr>payerName = ''Alice'', amount = 300, tripId = 1,
              description = ''hotel'', tripExpense.date = 10\<rparr>),
         (2, \<lparr>payerName = ''Bob'', amount = 20, tripId = 7,
              description = ''stray'', tripExpense.date = 11\<rparr>),
         (3, \<lparr>payerName = ''Alice'', amount = 300, tripId = 2,
              description = ''hotel'', tripExpense.date = 10\<rparr>)])"
proof -
  have a: "wfStore (store_trips exampleDb)" by (simp add: exampleDb_def wfStore_def)
  have b: "wfStore (store_trip_expenses exampleDb)" by (simp add: exampleDb_def wfStore_def)
  have c: "storeGet (store_trips exampleDb) 1
     = Some \<lparr>trip.name = ''Goa'', members = [''Alice'', ''Bob''], createdAt = 0, status = active\<rparr>"
    by (simp add: exampleDb_def storeGet_def)
  have k: "keyGenerator (store_trips exampleDb) = 2" "keyGenerator (store_trip_expenses exampleDb) = 3"
    "records (store_trip_expenses exampleDb) =
        [(1, \<lparr>payerName = ''Alice'', amount = 300, tripId = 1,
              description = ''hotel'', tripExpense.date = 10\<rparr>),
         (2, \<lparr>payerName = ''Bob'', amount = 20, tripId = 7,
              description = ''stray'', tripExpense.date = 11\<rparr>)]"
    by (simp_all add: exampleDb_def)
  from export_import_round_trip[OF a b c, of 5]
  obtain fl db' where r: "exportTrip exampleDb 1 5 = (Inr fl, exampleDb)"
    "importTrip exampleDb fl = (Inr (), db')"
    "storeGet (store_trips db') 2
        = Some \<lparr>trip.name = ''Goa'', members = [''Alice'', ''Bob''], createdAt = 0, status = active\<rparr>"
    "records (store_trip_expenses db') =
        [(1, \<lparr>payerName = ''Alice'', amount = 300, tripId = 1,
              description = ''hotel'', tripExpense.date = 10\<rparr>),
         (2, \<lparr>payerName = ''Bob'', amount = 20, tripId = 7,
              description = ''stray'', tripExpense.date = 11\<rparr>),
         (3, \<lparr>payerName = ''Alice'', amount = 300, tripId = 2,
              description = ''hotel'', tripExpense.date = 10\<rparr>)]"
    unfolding k Let_def by (auto simp: upt_rec)
  show ?thesis using a b c r by blast
qed

subsection \<open>The reminder sweep\<close>





























subsection \<open>Whole-database import\<close>




lemma addCategories_fails:
  "addCategories st ns = Inl e \<Longrightarrow> e = ConstraintError"
proof (induction ns arbitrary: st)
  case Nil
  then show ?case by simp
next
  case (Cons n ns)
  show ?case
  proof (cases "reqAdd sameName (readwrite, st) \<lparr>category.name = n\<rparr>")
    case (Inl e')
    then have "e' = ConstraintError" by (auto simp: reqAdd_def split: if_splits)
    then show ?thesis using Cons.prems Inl by simp
  next
    case (Inr p)
    then show ?thesis using Cons.prems Cons.IH by (cases p) simp
  qed
qed















subsection \<open>Change notifications\<close>










end
